theory Spec2Isabelle
  imports Main
begin

section \<open>The vocabulary index of \<open>nn.py\<close>\<close>

text \<open>
  The class \<open>Index\<close> maps the objects of a vocabulary to consecutive integers and
  converts sequences of objects to index vectors, index matrices and binary vectors,
  and back. Its two dictionaries are partial maps, Python's unbounded integers are
  \<open>int\<close>, and the exceptions that Python and numpy raise are values of \<open>py_error\<close>.
  The arrays are created with \<open>dtype=int\<close>, numpy's 64-bit signed integer: an array
  holds integers of that range only, and storing a Python integer outside it raises
  OverflowError. The memory an allocation needs is not part of the model.
\<close>

subsection \<open>Errors and arrays\<close>

datatype py_error = ValueError | IndexError | OverflowError

text \<open>The values of the element type \<open>int\<close> of the arrays.\<close>

definition int64 :: "int \<Rightarrow> bool" where
  "int64 v \<longleftrightarrow> - (2 ^ 63) \<le> v \<and> v < 2 ^ 63"

text \<open>A one-dimensional integer array is the list of its elements.\<close>

type_synonym ndarray1 = "int list"

text \<open>
  \<open>np.array(values, dtype=int)\<close> of a list of Python integers: a value that does not
  fit the element type is an OverflowError.
\<close>

definition np_array :: "int list \<Rightarrow> py_error + ndarray1" where
  "np_array vs = (if list_all int64 vs then Inr vs else Inl OverflowError)"

text \<open>
  A two-dimensional array carries its shape, since an array with no rows still has a
  column count. Every function below keeps \<open>length (rows m) = nrows m\<close> and every row
  of length \<open>ncols m\<close>.
\<close>

record ndarray2 =
  nrows :: nat
  ncols :: nat
  rows :: "int list list"

text \<open>\<open>dict.get(key, default)\<close>\<close>

definition dict_get :: "('k \<rightharpoonup> 'v) \<Rightarrow> 'k \<Rightarrow> 'v \<Rightarrow> 'v" where
  "dict_get d k dflt = (case d k of Some v \<Rightarrow> v | None \<Rightarrow> dflt)"

text \<open>\<open>max(...)\<close> over a generator: Python raises ValueError when it yields nothing.\<close>

definition py_max :: "nat list \<Rightarrow> py_error + nat" where
  "py_max ns = (case ns of [] \<Rightarrow> Inl ValueError | n # ms \<Rightarrow> Inr (fold max ms n))"



text \<open>
  \<open>np.full((r, c), v, dtype=int)\<close>, with \<open>r\<close> and \<open>c\<close> lengths and \<open>v\<close> a Python
  integer: a fill value that does not fit the element type is an OverflowError.
\<close>

definition np_full2 :: "nat \<Rightarrow> nat \<Rightarrow> int \<Rightarrow> py_error + ndarray2" where
  "np_full2 r c v =
     (if int64 v then Inr \<lparr>nrows = r, ncols = c, rows = replicate r (replicate c v)\<rparr>
      else Inl OverflowError)"


text \<open>
  Assigning a one-dimensional value to a one-dimensional target of length \<open>l\<close>: the
  lengths agree, or a value of length one is broadcast; anything else is a ValueError.
\<close>

definition np_broadcast :: "nat \<Rightarrow> int list \<Rightarrow> py_error + int list" where
  "np_broadcast l vs =
     (if length vs = l then Inr vs
      else if length vs = 1 then Inr (replicate l (hd vs))
      else Inl ValueError)"


text \<open>
  \<open>matrix[i, :k] = vs\<close>, with \<open>vs\<close> a list of Python integers: the slice stops at the
  row's end, and the values are converted to the element type before they are stored.
\<close>

definition np_setrow_prefix :: "ndarray2 \<Rightarrow> nat \<Rightarrow> nat \<Rightarrow> int list \<Rightarrow> py_error + ndarray2" where
  "np_setrow_prefix m i k vs =
     (if nrows m \<le> i then Inl IndexError
      else if \<not> list_all int64 vs then Inl OverflowError
      else let l = min k (ncols m)
           in case np_broadcast l vs of
                Inl e \<Rightarrow> Inl e
              | Inr ws \<Rightarrow> Inr (m\<lparr>rows := (rows m)[i := ws @ drop l (rows m ! i)]\<rparr>))"

subsection \<open>The class \<open>Index\<close>\<close>

record 'a Index =
  start :: int
  object_to_index :: "'a \<rightharpoonup> int"
  index_to_object :: "int \<rightharpoonup> 'a"
  vocab_size :: int
  not_in_index :: int

text \<open>
  The loop of \<open>__init__\<close> over \<open>vocab\<close>; its state is the two dictionaries and the
  next index \<open>idx\<close>.
\<close>

fun init_loop ::
  "'a list \<Rightarrow> ('a \<rightharpoonup> int) \<times> (int \<rightharpoonup> 'a) \<times> int \<Rightarrow> ('a \<rightharpoonup> int) \<times> (int \<rightharpoonup> 'a) \<times> int" where
  "init_loop [] s = s"
| "init_loop (obj # vocab) (o2i, i2o, idx) =
     (if o2i obj = None
      then init_loop vocab (o2i(obj \<mapsto> idx), i2o(idx \<mapsto> obj), idx + 1)
      else init_loop vocab (o2i, i2o, idx))"

definition Index_init :: "'a list \<Rightarrow> int \<Rightarrow> 'a Index" where
  "Index_init vocab st =
     (case init_loop vocab (Map.empty, Map.empty, st) of
        (o2i, i2o, idx) \<Rightarrow>
          \<lparr>start = st, object_to_index = o2i, index_to_object = i2o,
           vocab_size = idx - st, not_in_index = st - 1\<rparr>)"

definition objects_to_indexes :: "'a Index \<Rightarrow> 'a list \<Rightarrow> py_error + ndarray1" where
  "objects_to_indexes self object_seq =
     np_array (map (\<lambda>obj. dict_get (object_to_index self) obj (not_in_index self)) object_seq)"

text \<open>The loop of \<open>objects_to_index_matrix\<close> over \<open>enumerate(object_seq_seq)\<close>.\<close>

fun index_matrix_loop ::
  "'a Index \<Rightarrow> (nat \<times> 'a list) list \<Rightarrow> ndarray2 \<Rightarrow> py_error + ndarray2" where
  "index_matrix_loop self [] matrix = Inr matrix"
| "index_matrix_loop self ((i, seq) # rest) matrix =
     (let indexes = map (\<lambda>obj. dict_get (object_to_index self) obj (not_in_index self)) seq
      in case np_setrow_prefix matrix i (length indexes) indexes of
           Inl e \<Rightarrow> Inl e
         | Inr matrix' \<Rightarrow> index_matrix_loop self rest matrix')"

definition objects_to_index_matrix :: "'a Index \<Rightarrow> 'a list list \<Rightarrow> py_error + ndarray2" where
  "objects_to_index_matrix self object_seq_seq =
     (case py_max (map length object_seq_seq) of
        Inl e \<Rightarrow> Inl e
      | Inr max_length \<Rightarrow>
          (case np_full2 (length object_seq_seq) max_length (not_in_index self) of
             Inl e \<Rightarrow> Inl e
           | Inr matrix \<Rightarrow> index_matrix_loop self (enumerate 0 object_seq_seq) matrix))"





text \<open>
  The comprehensions of the decoders test \<open>idx in self.index_to_object\<close> before they
  read \<open>self.index_to_object[idx]\<close>; one \<open>case\<close> on the lookup does both, so no KeyError
  can arise.
\<close>

definition indexes_to_objects :: "'a Index \<Rightarrow> ndarray1 \<Rightarrow> 'a list" where
  "indexes_to_objects self index_vector =
     concat (map (\<lambda>idx. case index_to_object self idx of Some obj \<Rightarrow> [obj] | None \<Rightarrow> [])
       index_vector)"

definition index_matrix_to_objects :: "'a Index \<Rightarrow> int list list \<Rightarrow> 'a list list" where
  "index_matrix_to_objects self index_matrix = map (indexes_to_objects self) index_matrix"

definition binary_vector_to_objects :: "'a Index \<Rightarrow> ndarray1 \<Rightarrow> 'a list" where
  "binary_vector_to_objects self vec =
     concat (map (\<lambda>(idx, val).
        if val = 1 then (case index_to_object self (int idx) of Some obj \<Rightarrow> [obj] | None \<Rightarrow> [])
        else [])
       (enumerate 0 vec))"

definition binary_matrix_to_objects :: "'a Index \<Rightarrow> int list list \<Rightarrow> 'a list list" where
  "binary_matrix_to_objects self binary_matrix = map (binary_vector_to_objects self) binary_matrix"

subsection \<open>Objects in order of first occurrence\<close>

text \<open>
  The specification's description of construction: walk the vocabulary once and keep
  each object the first time it is seen. \<open>first_occurrences\<close> lists the distinct objects
  in that order.
\<close>

definition note_object :: "'a \<Rightarrow> 'a list \<Rightarrow> 'a list" where
  "note_object obj seen = (if obj \<in> set seen then seen else seen @ [obj])"

definition first_occurrences :: "'a list \<Rightarrow> 'a list" where
  "first_occurrences vocab = fold note_object vocab []"

subsection \<open>The state of the construction loop\<close>

text \<open>
  \<open>assigned st us s\<close> relates a state \<open>s\<close> of the loop of \<open>__init__\<close> to the list \<open>us\<close>
  of the distinct objects met so far: the \<open>k\<close>-th of them has index \<open>st + k\<close> in both
  dictionaries, nothing else is stored, and the next index follows the last one.
\<close>

definition assigned :: "int \<Rightarrow> 'a list \<Rightarrow> ('a \<rightharpoonup> int) \<times> (int \<rightharpoonup> 'a) \<times> int \<Rightarrow> bool" where
  "assigned st us s = (case s of (o2i, i2o, idx) \<Rightarrow>
     distinct us \<and> idx = st + int (length us) \<and> dom o2i = set us \<and>
     dom i2o = {st ..< idx} \<and>
     (\<forall>k < length us. o2i (us ! k) = Some (st + int k) \<and> i2o (st + int k) = Some (us ! k)))"

section \<open>Construction\<close>

lemma assigned_step_new:
  assumes "assigned st us (o2i, i2o, idx)" "o2i obj = None"
  shows "assigned st (us @ [obj]) (o2i(obj \<mapsto> idx), i2o(idx \<mapsto> obj), idx + 1)"
proof -
  from assms have notin: "obj \<notin> set us" by (auto simp: assigned_def)
  from assms have idx: "idx = st + int (length us)" by (simp add: assigned_def)
  have d: "distinct (us @ [obj])" using assms notin by (simp add: assigned_def)
  have domo: "dom (o2i(obj \<mapsto> idx)) = set (us @ [obj])" using assms by (auto simp: assigned_def)
  have domi: "dom (i2o(idx \<mapsto> obj)) = {st ..< idx + 1}" using assms by (auto simp: assigned_def)
  have pts: "\<forall>k < length (us @ [obj]). (o2i(obj \<mapsto> idx)) ((us @ [obj]) ! k) = Some (st + int k) \<and>
       (i2o(idx \<mapsto> obj)) (st + int k) = Some ((us @ [obj]) ! k)"
  proof (intro allI impI)
    fix k assume k: "k < length (us @ [obj])"
    show "(o2i(obj \<mapsto> idx)) ((us @ [obj]) ! k) = Some (st + int k) \<and>
       (i2o(idx \<mapsto> obj)) (st + int k) = Some ((us @ [obj]) ! k)"
    proof (cases "k < length us")
      case True
      then have "us ! k \<in> set us" by simp
      then have "us ! k \<noteq> obj" using notin by auto
      moreover have "st + int k \<noteq> idx" using True idx by simp
      ultimately show ?thesis using assms True by (simp add: assigned_def nth_append)
    next
      case False
      then have "k = length us" using k by simp
      then show ?thesis using idx by (simp add: nth_append)
    qed
  qed
  show ?thesis unfolding assigned_def using d domo domi pts idx by simp
qed

lemma assigned_init_loop:
  "assigned st us s \<Longrightarrow> assigned st (fold note_object vocab us) (init_loop vocab s)"
proof (induction vocab arbitrary: us s)
  case Nil
  then show ?case by simp
next
  case (Cons obj vocab)
  obtain o2i i2o idx where s: "s = (o2i, i2o, idx)" by (cases s)
  show ?case
  proof (cases "o2i obj = None")
    case True
    then have "obj \<notin> set us" using Cons.prems s by (auto simp: assigned_def)
    then have n: "note_object obj us = us @ [obj]" by (simp add: note_object_def)
    from Cons.prems s True have "assigned st (us @ [obj]) (o2i(obj \<mapsto> idx), i2o(idx \<mapsto> obj), idx + 1)"
      by (simp add: assigned_step_new)
    from Cons.IH [OF this] show ?thesis using s True n by simp
  next
    case False
    then have "obj \<in> set us" using Cons.prems s by (auto simp: assigned_def)
    then have n: "note_object obj us = us" by (simp add: note_object_def)
    from Cons.IH [OF Cons.prems] show ?thesis using s False n by auto
  qed
qed

lemma set_fold_note_object: "set (fold note_object vocab us) = set us \<union> set vocab"
  by (induction vocab arbitrary: us) (auto simp: note_object_def)

lemma set_first_occurrences: "set (first_occurrences vocab) = set vocab"
  by (simp add: first_occurrences_def set_fold_note_object)

lemma first_occurrences_snoc:
  "first_occurrences (vocab @ [obj]) = note_object obj (first_occurrences vocab)"
  by (simp add: first_occurrences_def)

lemma first_occurrences_remdups: "first_occurrences vocab = rev (remdups (rev vocab))"
proof (induction vocab rule: rev_induct)
  case Nil
  show ?case by (simp add: first_occurrences_def)
next
  case (snoc obj vocab)
  have "set (rev (remdups (rev vocab))) = set vocab" by simp
  with snoc show ?case
    by (simp add: first_occurrences_snoc note_object_def)
qed

lemma assigned_empty: "assigned st [] (Map.empty, Map.empty, st)"
  by (simp add: assigned_def)

lemma assigned_Index_init:
  "assigned st (first_occurrences vocab)
     (object_to_index (Index_init vocab st), index_to_object (Index_init vocab st),
      st + vocab_size (Index_init vocab st))"
proof -
  obtain o2i i2o idx where l: "init_loop vocab (Map.empty, Map.empty, st) = (o2i, i2o, idx)"
    by (cases "init_loop vocab (Map.empty, Map.empty, st)")
  have "assigned st (first_occurrences vocab) (init_loop vocab (Map.empty, Map.empty, st))"
    unfolding first_occurrences_def by (rule assigned_init_loop [OF assigned_empty])
  then show ?thesis by (simp add: Index_init_def l)
qed

lemma start_Index_init: "start (Index_init vocab st) = st"
  by (simp add: Index_init_def split: prod.split)

lemma not_in_index_Index_init: "not_in_index (Index_init vocab st) = st - 1"
  by (simp add: Index_init_def split: prod.split)

lemma assigned_unique:
  assumes "assigned st us (o2i, i2o, idx)" "assigned st us (o2i', i2o', idx')"
  shows "o2i = o2i' \<and> i2o = i2o' \<and> idx = idx'"
proof -
  have idx: "idx = idx'" using assms by (simp add: assigned_def)
  have "o2i obj = o2i' obj" for obj
  proof (cases "obj \<in> set us")
    case True
    then obtain k where "k < length us" "us ! k = obj" by (auto simp: in_set_conv_nth)
    then show ?thesis using assms by (auto simp: assigned_def)
  next
    case False
    then have "obj \<notin> dom o2i" "obj \<notin> dom o2i'" using assms by (simp_all add: assigned_def)
    then show ?thesis by (simp add: domIff)
  qed
  moreover have "i2o i = i2o' i" for i
  proof (cases "i \<in> {st ..< idx}")
    case True
    then have "nat (i - st) < length us \<and> i = st + int (nat (i - st))"
      using assms by (auto simp: assigned_def)
    then obtain k where k: "k < length us" and i: "i = st + int k" by blast
    have "i2o (st + int k) = Some (us ! k)"
      using assms(1) k by (simp add: assigned_def)
    moreover have "i2o' (st + int k) = Some (us ! k)"
      using assms(2) k by (simp add: assigned_def)
    ultimately show ?thesis by (simp add: i)
  next
    case False
    then have "i \<notin> dom i2o" "i \<notin> dom i2o'" using assms idx by (simp_all add: assigned_def)
    then show ?thesis by (simp add: domIff)
  qed
  ultimately show ?thesis using idx by auto
qed

lemma fold_note_object_distinct:
  "distinct (acc @ us) \<Longrightarrow> fold note_object us acc = acc @ us"
  by (induction us arbitrary: acc) (auto simp: note_object_def)

lemma first_occurrences_idem: "first_occurrences (first_occurrences vocab) = first_occurrences vocab"
proof -
  have "distinct (first_occurrences vocab)" by (simp add: first_occurrences_remdups)
  then show ?thesis using fold_note_object_distinct [of "[]" "first_occurrences vocab"]
    by (simp add: first_occurrences_def)
qed

lemma Index_init_first_occurrences: "Index_init (first_occurrences vocab) st = Index_init vocab st"
proof -
  let ?a = "Index_init (first_occurrences vocab) st" and ?b = "Index_init vocab st"
  have "assigned st (first_occurrences vocab)
     (object_to_index ?a, index_to_object ?a, st + vocab_size ?a)"
    using assigned_Index_init [of st "first_occurrences vocab"] by (simp add: first_occurrences_idem)
  from assigned_unique [OF this assigned_Index_init [of st vocab]]
  show ?thesis by (simp add: start_Index_init not_in_index_Index_init)
qed

lemma vocab_size_Index_init: "vocab_size (Index_init vocab st) = int (length (first_occurrences vocab))"
  using assigned_Index_init [of st vocab] by (simp add: assigned_def)

lemma dom_object_to_index: "dom (object_to_index (Index_init vocab st)) = set vocab"
  using assigned_Index_init [of st vocab] by (simp add: assigned_def set_first_occurrences)

lemma dom_index_to_object:
  "dom (index_to_object (Index_init vocab st)) = {st ..< st + vocab_size (Index_init vocab st)}"
  using assigned_Index_init [of st vocab] by (simp add: assigned_def)

lemma Index_init_nth:
  assumes "k < length (first_occurrences vocab)"
  shows "object_to_index (Index_init vocab st) (first_occurrences vocab ! k) = Some (st + int k)"
    and "index_to_object (Index_init vocab st) (st + int k) = Some (first_occurrences vocab ! k)"
  using assigned_Index_init [of st vocab] assms by (simp_all add: assigned_def)

lemma Index_init_inverse:
  "object_to_index (Index_init vocab st) obj = Some i \<longleftrightarrow>
   index_to_object (Index_init vocab st) i = Some obj"
proof
  assume a: "object_to_index (Index_init vocab st) obj = Some i"
  then have "obj \<in> set (first_occurrences vocab)"
    using dom_object_to_index [of vocab st] by (auto simp: set_first_occurrences)
  then obtain k where k: "k < length (first_occurrences vocab)" "first_occurrences vocab ! k = obj"
    by (auto simp: in_set_conv_nth)
  from Index_init_nth [OF k(1), of st] a k(2) show "index_to_object (Index_init vocab st) i = Some obj"
    by auto
next
  assume a: "index_to_object (Index_init vocab st) i = Some obj"
  then have "i \<in> {st ..< st + vocab_size (Index_init vocab st)}"
    using dom_index_to_object [of vocab st] by auto
  then have "nat (i - st) < length (first_occurrences vocab) \<and> i = st + int (nat (i - st))"
    by (auto simp: vocab_size_Index_init)
  then obtain k where k: "k < length (first_occurrences vocab)" "i = st + int k" by blast
  from Index_init_nth [OF k(1), of st] a k(2) show "object_to_index (Index_init vocab st) obj = Some i"
    by auto
qed

lemma assigned_index_bounds:
  assumes "object_to_index (Index_init vocab st) obj = Some idx"
  shows "st \<le> idx \<and> idx < st + vocab_size (Index_init vocab st)"
proof -
  from assms have "index_to_object (Index_init vocab st) idx = Some obj"
    by (simp add: Index_init_inverse)
  then have "idx \<in> dom (index_to_object (Index_init vocab st))" by auto
  then show ?thesis by (simp add: dom_index_to_object)
qed

text \<open>
  Claim C2. Construction walks the vocabulary once, in order, and numbers the objects
  by first occurrence: the \<open>k\<close>-th distinct object, counted from zero in the order of
  first occurrence (\<open>first_occurrences\<close>, which is the vocabulary with every later
  repetition removed), gets index \<open>start + k\<close> in both dictionaries; exactly the
  objects of the vocabulary get an index; repetitions change nothing, the index built
  from the vocabulary being the one built from its distinct objects;
  \<open>vocab_size\<close> counts the distinct objects and \<open>not_in_index\<close> is \<open>start - 1\<close>.
  For the vocabulary b, a, b, c and start 0 this gives b:0, a:1, c:2, size 3 and
  sentinel -1, as the instance after the theorem shows.
\<close>

theorem construction_first_occurrence:
  "first_occurrences vocab = rev (remdups (rev vocab)) \<and>
   (\<forall>k < length (first_occurrences vocab).
      object_to_index (Index_init vocab st) (first_occurrences vocab ! k) = Some (st + int k) \<and>
      index_to_object (Index_init vocab st) (st + int k) = Some (first_occurrences vocab ! k)) \<and>
   dom (object_to_index (Index_init vocab st)) = set vocab \<and>
   Index_init (first_occurrences vocab) st = Index_init vocab st \<and>
   start (Index_init vocab st) = st \<and>
   vocab_size (Index_init vocab st) = int (length (first_occurrences vocab)) \<and>
   not_in_index (Index_init vocab st) = st - 1"
  by (simp add: first_occurrences_remdups [symmetric] Index_init_nth dom_object_to_index
      Index_init_first_occurrences start_Index_init vocab_size_Index_init not_in_index_Index_init)

theorem construction_first_occurrence_witness:
  "object_to_index (Index_init [''b'', ''a'', ''b'', ''c''] 0) ''b'' = Some 0 \<and>
   object_to_index (Index_init [''b'', ''a'', ''b'', ''c''] 0) ''a'' = Some 1 \<and>
   object_to_index (Index_init [''b'', ''a'', ''b'', ''c''] 0) ''c'' = Some 2 \<and>
   index_to_object (Index_init [''b'', ''a'', ''b'', ''c''] 0) 0 = Some ''b'' \<and>
   index_to_object (Index_init [''b'', ''a'', ''b'', ''c''] 0) 1 = Some ''a'' \<and>
   index_to_object (Index_init [''b'', ''a'', ''b'', ''c''] 0) 2 = Some ''c'' \<and>
   vocab_size (Index_init [''b'', ''a'', ''b'', ''c''] 0) = 3 \<and>
   not_in_index (Index_init [''b'', ''a'', ''b'', ''c''] 0) = - 1"
proof -
  have fo: "first_occurrences [''b'', ''a'', ''b'', ''c''] = [''b'', ''a'', ''c'']"
    by (simp add: first_occurrences_def note_object_def)
  note c = construction_first_occurrence [of "[''b'', ''a'', ''b'', ''c'']" 0, unfolded fo]
  from c have all: "\<forall>k < 3.
      object_to_index (Index_init [''b'', ''a'', ''b'', ''c''] 0) ([''b'', ''a'', ''c''] ! k) = Some (0 + int k) \<and>
      index_to_object (Index_init [''b'', ''a'', ''b'', ''c''] 0) (0 + int k) = Some ([''b'', ''a'', ''c''] ! k)"
    by simp
  from all have "0 < (3::nat) \<longrightarrow> object_to_index (Index_init [''b'', ''a'', ''b'', ''c''] 0) ([''b'', ''a'', ''c''] ! 0) = Some (0 + int 0) \<and>
      index_to_object (Index_init [''b'', ''a'', ''b'', ''c''] 0) (0 + int 0) = Some ([''b'', ''a'', ''c''] ! 0)" by blast
  moreover from all have "1 < (3::nat) \<longrightarrow> object_to_index (Index_init [''b'', ''a'', ''b'', ''c''] 0) ([''b'', ''a'', ''c''] ! 1) = Some (0 + int 1) \<and>
      index_to_object (Index_init [''b'', ''a'', ''b'', ''c''] 0) (0 + int 1) = Some ([''b'', ''a'', ''c''] ! 1)" by blast
  moreover from all have "2 < (3::nat) \<longrightarrow> object_to_index (Index_init [''b'', ''a'', ''b'', ''c''] 0) ([''b'', ''a'', ''c''] ! 2) = Some (0 + int 2) \<and>
      index_to_object (Index_init [''b'', ''a'', ''b'', ''c''] 0) (0 + int 2) = Some ([''b'', ''a'', ''c''] ! 2)" by blast
  moreover from c have "vocab_size (Index_init [''b'', ''a'', ''b'', ''c''] 0) = 3 \<and>
     not_in_index (Index_init [''b'', ''a'', ''b'', ''c''] 0) = - 1" by simp
  ultimately show ?thesis by simp
qed

text \<open>
  Claim C3. For every constructed index the two dictionaries are inverse to each other,
  the assigned indexes (the values of \<open>object_to_index\<close>, which are the keys of
  \<open>index_to_object\<close>) are exactly the integers from \<open>start\<close> to
  \<open>start + vocab_size - 1\<close>, distinct objects have distinct indexes and there are
  \<open>vocab_size\<close> of them, and \<open>not_in_index = start - 1\<close> is not a key of
  \<open>index_to_object\<close>. The operations of the class are functions of the index that
  return their result only: none of the methods assigns to a field of \<open>self\<close>, so the
  index after an operation is the index before it.
\<close>

theorem mapping_invariants:
  "(\<forall>obj i. object_to_index (Index_init vocab st) obj = Some i \<longleftrightarrow>
            index_to_object (Index_init vocab st) i = Some obj) \<and>
   ran (object_to_index (Index_init vocab st)) =
     {start (Index_init vocab st) .. start (Index_init vocab st) + vocab_size (Index_init vocab st) - 1} \<and>
   dom (index_to_object (Index_init vocab st)) =
     {start (Index_init vocab st) .. start (Index_init vocab st) + vocab_size (Index_init vocab st) - 1} \<and>
   inj_on (object_to_index (Index_init vocab st)) (dom (object_to_index (Index_init vocab st))) \<and>
   int (card (dom (object_to_index (Index_init vocab st)))) = vocab_size (Index_init vocab st) \<and>
   not_in_index (Index_init vocab st) = start (Index_init vocab st) - 1 \<and>
   index_to_object (Index_init vocab st) (not_in_index (Index_init vocab st)) = None"
proof -
  let ?ix = "Index_init vocab st"
  have inv: "\<forall>obj i. object_to_index ?ix obj = Some i \<longleftrightarrow> index_to_object ?ix i = Some obj"
    using Index_init_inverse by fast
  have domi: "dom (index_to_object ?ix) = {start ?ix .. start ?ix + vocab_size ?ix - 1}"
    by (auto simp: dom_index_to_object start_Index_init)
  have "ran (object_to_index ?ix) = dom (index_to_object ?ix)"
    using inv by (auto simp: ran_def dom_def)
  then have rano: "ran (object_to_index ?ix) = {start ?ix .. start ?ix + vocab_size ?ix - 1}"
    by (simp add: domi)
  have inj: "inj_on (object_to_index ?ix) (dom (object_to_index ?ix))"
  proof (rule inj_onI)
    fix a b assume "a \<in> dom (object_to_index ?ix)" "b \<in> dom (object_to_index ?ix)"
      "object_to_index ?ix a = object_to_index ?ix b"
    then obtain i where "object_to_index ?ix a = Some i" "object_to_index ?ix b = Some i" by auto
    then have "index_to_object ?ix i = Some a" "index_to_object ?ix i = Some b" using inv by auto
    then show "a = b" by simp
  qed
  have "card (set (first_occurrences vocab)) = length (first_occurrences vocab)"
    by (rule distinct_card) (simp add: first_occurrences_remdups)
  then have card: "int (card (dom (object_to_index ?ix))) = vocab_size ?ix"
    by (simp add: vocab_size_Index_init dom_object_to_index set_first_occurrences)
  have nii: "not_in_index ?ix = start ?ix - 1"
    by (simp add: not_in_index_Index_init start_Index_init)
  have "not_in_index ?ix \<notin> dom (index_to_object ?ix)"
    by (simp add: dom_index_to_object not_in_index_Index_init)
  then have none: "index_to_object ?ix (not_in_index ?ix) = None" by (simp add: domIff)
  from inv rano domi inj card nii none show ?thesis by blast
qed

section \<open>Objects to indexes and back\<close>

lemma object_to_index_None_iff:
  "object_to_index (Index_init vocab st) obj = None \<longleftrightarrow> obj \<notin> set vocab"
  using dom_object_to_index [of vocab st] by (auto simp: domIff)

lemma object_to_index_in_vocab:
  assumes "obj \<in> set vocab"
  obtains i where "object_to_index (Index_init vocab st) obj = Some i"
    and "index_to_object (Index_init vocab st) i = Some obj"
proof -
  from assms have "object_to_index (Index_init vocab st) obj \<noteq> None"
    by (simp add: object_to_index_None_iff)
  then obtain i where i: "object_to_index (Index_init vocab st) obj = Some i" by auto
  then have "index_to_object (Index_init vocab st) i = Some obj"
    by (simp add: Index_init_inverse)
  with i show thesis by (rule that)
qed

lemma int64_assigned_index:
  assumes "- (2 ^ 63) \<le> st" "st + vocab_size (Index_init vocab st) \<le> 2 ^ 63"
    and "object_to_index (Index_init vocab st) obj = Some i"
  shows "int64 i"
  using assigned_index_bounds [OF assms(3)] assms(1,2) by (simp add: int64_def)

lemma int64_dict_get:
  assumes "- (2 ^ 63) < st" "st + vocab_size (Index_init vocab st) \<le> 2 ^ 63"
  shows "int64 (dict_get (object_to_index (Index_init vocab st)) obj
           (not_in_index (Index_init vocab st)))"
proof (cases "object_to_index (Index_init vocab st) obj")
  case None
  have "0 \<le> vocab_size (Index_init vocab st)" by (simp add: vocab_size_Index_init)
  with assms None show ?thesis
    by (simp add: dict_get_def not_in_index_Index_init int64_def)
next
  case (Some i)
  from assms(1) have "- (2 ^ 63) \<le> st" by simp
  from int64_assigned_index [OF this assms(2) Some] Some show ?thesis
    by (simp add: dict_get_def)
qed

lemma decode_encoded_list:
  assumes "set S \<subseteq> set V"
  shows "indexes_to_objects (Index_init V st)
           (map (\<lambda>obj. dict_get (object_to_index (Index_init V st)) obj
                         (not_in_index (Index_init V st))) S) = S"
  using assms
proof (induction S)
  case Nil
  show ?case by (simp add: indexes_to_objects_def)
next
  case (Cons obj S)
  then have "obj \<in> set V" by simp
  then obtain i where i: "object_to_index (Index_init V st) obj = Some i"
    "index_to_object (Index_init V st) i = Some obj"
    by (rule object_to_index_in_vocab)
  from Cons have "indexes_to_objects (Index_init V st)
           (map (\<lambda>obj. dict_get (object_to_index (Index_init V st)) obj
                         (not_in_index (Index_init V st))) S) = S"
    by simp
  then show ?case using i
    by (simp add: indexes_to_objects_def dict_get_def)
qed

text \<open>
  As claim C5 is written it covers every start. The array is created with
  \<open>dtype=int\<close>, so a value outside the 64-bit range cannot be stored: with start
  \<open>-2^63\<close> the sentinel \<open>start - 1\<close> is such a value, and encoding an object that is
  not in the vocabulary raises OverflowError instead of returning an array.
\<close>

theorem objects_to_indexes_sentinel_overflow:
  "objects_to_indexes (Index_init [''a'', ''b''] (- (2 ^ 63))) [''a'', ''z''] = Inl OverflowError"
  by (simp add: objects_to_indexes_def np_array_def int64_def dict_get_def Index_init_def)

text \<open>
  Claim C5, amended. Whenever the sentinel \<open>start - 1\<close> and every assigned index fit
  the 64-bit element type, that is \<open>-2^63 < start\<close> and \<open>start + vocab_size \<le> 2^63\<close>,
  \<open>objects_to_indexes\<close> returns for every input sequence an array of the length of the
  input; position \<open>i\<close> holds the index that \<open>object_to_index\<close> gives the \<open>i\<close>-th object
  when that object is in the vocabulary, and \<open>not_in_index\<close>, which is \<open>start - 1\<close>,
  when it is not. Every position of the input is answered by its own position of the
  output, so order is kept and repetitions stay. With the vocabulary a, b and start 0
  the sequence a, z is encoded as 0, -1.
\<close>

theorem objects_to_indexes_positions:
  assumes "- (2 ^ 63) < st" "st + vocab_size (Index_init vocab st) \<le> 2 ^ 63"
  shows "\<exists>index_vector.
           objects_to_indexes (Index_init vocab st) object_seq = Inr index_vector \<and>
           length index_vector = length object_seq \<and>
           (\<forall>i < length object_seq.
              (object_seq ! i \<in> set vocab \<longrightarrow>
                 object_to_index (Index_init vocab st) (object_seq ! i) = Some (index_vector ! i)) \<and>
              (object_seq ! i \<notin> set vocab \<longrightarrow>
                 index_vector ! i = not_in_index (Index_init vocab st))) \<and>
           not_in_index (Index_init vocab st) = start (Index_init vocab st) - 1"
proof -
  let ?ix = "Index_init vocab st"
  let ?enc = "\<lambda>obj. dict_get (object_to_index ?ix) obj (not_in_index ?ix)"
  have "list_all int64 (map ?enc object_seq)"
    using int64_dict_get [OF assms] by (simp add: list_all_iff)
  then have r: "objects_to_indexes ?ix object_seq = Inr (map ?enc object_seq)"
    by (simp add: objects_to_indexes_def np_array_def)
  have "object_to_index ?ix obj = Some (?enc obj)" if "obj \<in> set vocab" for obj
    using that object_to_index_None_iff [of vocab st obj] by (auto simp: dict_get_def)
  moreover have "?enc obj = not_in_index ?ix" if "obj \<notin> set vocab" for obj
    using that object_to_index_None_iff [of vocab st obj] by (simp add: dict_get_def)
  ultimately have "\<forall>i < length object_seq.
      (object_seq ! i \<in> set vocab \<longrightarrow>
         object_to_index ?ix (object_seq ! i) = Some (map ?enc object_seq ! i)) \<and>
      (object_seq ! i \<notin> set vocab \<longrightarrow> map ?enc object_seq ! i = not_in_index ?ix)"
    by simp
  moreover have "not_in_index ?ix = start ?ix - 1"
    by (simp add: not_in_index_Index_init start_Index_init)
  ultimately show ?thesis using r by simp
qed

theorem objects_to_indexes_positions_witness:
  "- (2 ^ 63) < (0::int) \<and>
   0 + vocab_size (Index_init [''a'', ''b''] 0) \<le> 2 ^ 63 \<and>
   objects_to_indexes (Index_init [''a'', ''b''] 0) [''a'', ''z''] = Inr [0, - 1]"
proof -
  let ?ix = "Index_init [''a'', ''b''] 0"
  have h1: "- (2 ^ 63) < (0::int)" by simp
  have h2: "0 + vocab_size ?ix \<le> 2 ^ 63" by (simp add: Index_init_def)
  have a: "object_to_index ?ix ''a'' = Some 0" by (simp add: Index_init_def)
  have n: "not_in_index ?ix = - 1" by (simp add: Index_init_def)
  from objects_to_indexes_positions [OF h1 h2, of "[''a'', ''z'']"]
  obtain r where r: "objects_to_indexes ?ix [''a'', ''z''] = Inr r" "length r = 2"
    and all: "\<forall>i < length [''a'', ''z''].
      ([''a'', ''z''] ! i \<in> set [''a'', ''b''] \<longrightarrow>
         object_to_index ?ix ([''a'', ''z''] ! i) = Some (r ! i)) \<and>
      ([''a'', ''z''] ! i \<notin> set [''a'', ''b''] \<longrightarrow> r ! i = not_in_index ?ix)"
    by auto
  from all have "0 < length [''a'', ''z''] \<longrightarrow>
      ([''a'', ''z''] ! 0 \<in> set [''a'', ''b''] \<longrightarrow>
         object_to_index ?ix ([''a'', ''z''] ! 0) = Some (r ! 0))" by blast
  then have r0: "r ! 0 = 0" using a by simp
  from all have "1 < length [''a'', ''z''] \<longrightarrow>
      ([''a'', ''z''] ! 1 \<notin> set [''a'', ''b''] \<longrightarrow> r ! 1 = not_in_index ?ix)" by blast
  then have r1: "r ! 1 = - 1" using n by simp
  from r(2) obtain x y where xy: "r = [x, y]"
    by (cases r; cases "tl r"; cases "tl (tl r)") auto
  with r0 r1 r(1) h1 h2 show ?thesis by simp
qed

text \<open>
  As claim C1 is written it covers every start. With start \<open>2^63\<close> the only index of
  the vocabulary a does not fit the 64-bit element type, and encoding the sequence a
  raises OverflowError, so there is nothing to decode.
\<close>

theorem index_round_trip_overflow:
  "set [''a''] \<subseteq> set [''a''] \<and>
   objects_to_indexes (Index_init [''a''] (2 ^ 63)) [''a''] = Inl OverflowError"
  by (simp add: objects_to_indexes_def np_array_def int64_def dict_get_def Index_init_def)

text \<open>
  Claim C1, amended. For every vocabulary \<open>V\<close>, every start for which the assigned
  indexes fit the 64-bit element type of the index array, that is \<open>-2^63 \<le> start\<close>
  and \<open>start + vocab_size \<le> 2^63\<close>, and every sequence \<open>S\<close> whose elements all occur
  in \<open>V\<close>, \<open>objects_to_indexes\<close> returns an array, and decoding it gives \<open>S\<close> back: the
  same elements in the same order.
\<close>

theorem index_round_trip:
  assumes "set S \<subseteq> set V"
    and "- (2 ^ 63) \<le> st" "st + vocab_size (Index_init V st) \<le> 2 ^ 63"
  shows "\<exists>index_vector.
           objects_to_indexes (Index_init V st) S = Inr index_vector \<and>
           indexes_to_objects (Index_init V st) index_vector = S"
proof -
  let ?ix = "Index_init V st"
  let ?enc = "\<lambda>obj. dict_get (object_to_index ?ix) obj (not_in_index ?ix)"
  have "int64 (?enc obj)" if "obj \<in> set S" for obj
  proof -
    from that assms(1) have "obj \<in> set V" by auto
    then obtain i where i: "object_to_index ?ix obj = Some i"
      by (rule object_to_index_in_vocab)
    from int64_assigned_index [OF assms(2,3) i] i show ?thesis by (simp add: dict_get_def)
  qed
  then have "list_all int64 (map ?enc S)" by (simp add: list_all_iff)
  then have "objects_to_indexes ?ix S = Inr (map ?enc S)"
    by (simp add: objects_to_indexes_def np_array_def)
  with decode_encoded_list [OF assms(1), of st] show ?thesis by simp
qed

theorem index_round_trip_witness:
  "set [''c'', ''a'', ''c''] \<subseteq> set [''a'', ''b'', ''c''] \<and>
   - (2 ^ 63) \<le> (5::int) \<and>
   5 + vocab_size (Index_init [''a'', ''b'', ''c''] 5) \<le> 2 ^ 63 \<and>
   objects_to_indexes (Index_init [''a'', ''b'', ''c''] 5) [''c'', ''a'', ''c''] = Inr [7, 5, 7] \<and>
   indexes_to_objects (Index_init [''a'', ''b'', ''c''] 5) [7, 5, 7] = [''c'', ''a'', ''c'']"
proof -
  have h: "set [''c'', ''a'', ''c''] \<subseteq> set [''a'', ''b'', ''c'']" by simp
  have h1: "- (2 ^ 63) \<le> (5::int)" by simp
  have h2: "5 + vocab_size (Index_init [''a'', ''b'', ''c''] 5) \<le> 2 ^ 63"
    by (simp add: Index_init_def)
  have e: "objects_to_indexes (Index_init [''a'', ''b'', ''c''] 5) [''c'', ''a'', ''c''] = Inr [7, 5, 7]"
    by (simp add: objects_to_indexes_def np_array_def int64_def Index_init_def dict_get_def)
  with index_round_trip [OF h h1 h2]
  have "indexes_to_objects (Index_init [''a'', ''b'', ''c''] 5) [7, 5, 7] = [''c'', ''a'', ''c'']"
    by simp
  with h h1 h2 e show ?thesis by blast
qed

section \<open>Binary vectors\<close>

lemma enumerate_conv_map_nth: "enumerate 0 vec = map (\<lambda>i. (i, vec ! i)) [0..<length vec]"
  by (rule nth_equalityI) (simp_all add: nth_enumerate_eq)

lemma concat_map_if_singleton:
  "concat (map (\<lambda>x. if P x then [h x] else []) xs) = map h (filter P xs)"
  by (induction xs) simp_all

text \<open>
  Claim C8. For every input vector \<open>binary_vector_to_objects\<close> goes through the
  positions in increasing order and returns, in that order, the object of every
  position whose value is exactly 1 and which is a key of \<open>index_to_object\<close>. A
  position holding another value, nonzero or not, and a position that is not a key are
  passed over: with the vocabulary a, b, c and start 0 the vector 2, 1, 0, 1, 1 decodes
  to b alone, the 2 at position 0 not counting as set and positions 3 and 4 having no
  object.
\<close>

theorem binary_vector_to_objects_scan:
  "binary_vector_to_objects self vec =
     map (\<lambda>idx. the (index_to_object self (int idx)))
       (filter (\<lambda>idx. vec ! idx = 1 \<and> index_to_object self (int idx) \<noteq> None) [0..<length vec]) \<and>
   binary_vector_to_objects (Index_init [''a'', ''b'', ''c''] 0) [2, 1, 0, 1, 1] = [''b'']"
proof -
  have "(\<lambda>(idx, val). if val = 1
            then (case index_to_object self (int idx) of Some obj \<Rightarrow> [obj] | None \<Rightarrow> [])
            else []) \<circ> (\<lambda>i. (i, vec ! i)) =
        (\<lambda>idx. if vec ! idx = 1 \<and> index_to_object self (int idx) \<noteq> None
                then [the (index_to_object self (int idx))] else [])"
    by (auto simp: fun_eq_iff)
  then have "binary_vector_to_objects self vec =
     map (\<lambda>idx. the (index_to_object self (int idx)))
       (filter (\<lambda>idx. vec ! idx = 1 \<and> index_to_object self (int idx) \<noteq> None) [0..<length vec])"
    by (simp add: binary_vector_to_objects_def enumerate_conv_map_nth
        concat_map_if_singleton [symmetric] del: upt.simps)
  moreover have "binary_vector_to_objects (Index_init [''a'', ''b'', ''c''] 0) [2, 1, 0, 1, 1] = [''b'']"
    by (simp add: binary_vector_to_objects_def Index_init_def)
  ultimately show ?thesis by simp
qed








section \<open>Matrices over an empty outer sequence\<close>




text \<open>
  Claim C4. The claim asks for an explicit guard of the empty outer sequence in
  \<open>objects_to_index_matrix\<close>. The function has none: it takes the maximum of the
  lengths first, over no lengths at all when the outer sequence is empty, and the
  ValueError of \<open>max\<close> is what the caller gets, for every index.
\<close>

theorem objects_to_index_matrix_empty:
  "objects_to_index_matrix self [] = Inl ValueError \<and>
   objects_to_index_matrix (Index_init [''a'', ''b''] 0) [] = Inl ValueError"
  by (simp add: objects_to_index_matrix_def py_max_def)

section \<open>Index matrices\<close>

lemma py_max_nonempty: "ns \<noteq> [] \<Longrightarrow> py_max ns = Inr (Max (set ns))"
  by (cases ns) (simp_all add: py_max_def Max.set_eq_fold [symmetric])

lemma np_setrow_prefix_fits:
  assumes "i < nrows m" "length vs \<le> ncols m" "list_all int64 vs"
  shows "np_setrow_prefix m i (length vs) vs =
           Inr (m\<lparr>rows := (rows m)[i := vs @ drop (length vs) (rows m ! i)]\<rparr>)"
  using assms by (simp add: np_setrow_prefix_def np_broadcast_def Let_def min_def)

lemma index_matrix_loop_rows:
  assumes "length (rows m) = nrows m" "i + length rest = nrows m"
    "\<forall>seq \<in> set rest. length seq \<le> ncols m"
    "\<forall>obj. int64 (dict_get (object_to_index self) obj (not_in_index self))"
  shows "index_matrix_loop self (enumerate i rest) m =
           Inr (m\<lparr>rows := take i (rows m) @
                  map (\<lambda>(seq, row).
                         map (\<lambda>obj. dict_get (object_to_index self) obj (not_in_index self)) seq @
                         drop (length seq) row)
                    (zip rest (drop i (rows m)))\<rparr>)"
  using assms(1-3)
proof (induction rest arbitrary: i m)
  case Nil
  then show ?case by simp
next
  case (Cons seq rest)
  let ?indexes = "map (\<lambda>obj. dict_get (object_to_index self) obj (not_in_index self)) seq"
  let ?m = "m\<lparr>rows := (rows m)[i := ?indexes @ drop (length seq) (rows m ! i)]\<rparr>"
  have len: "length ?indexes = length seq" by simp
  have fits: "list_all int64 ?indexes" using assms(4) by (simp add: list_all_iff)
  from Cons.prems have i: "i < nrows m" "i < length (rows m)" and fit: "length ?indexes \<le> ncols m"
    by simp_all
  from np_setrow_prefix_fits [OF i(1) fit fits]
  have step: "np_setrow_prefix m i (length ?indexes) ?indexes = Inr ?m" by (simp add: len)
  have "index_matrix_loop self (enumerate (Suc i) rest) ?m =
          Inr (?m\<lparr>rows := take (Suc i) (rows ?m) @
                 map (\<lambda>(seq, row).
                        map (\<lambda>obj. dict_get (object_to_index self) obj (not_in_index self)) seq @
                        drop (length seq) row)
                   (zip rest (drop (Suc i) (rows ?m)))\<rparr>)"
    using Cons.prems by (intro Cons.IH) simp_all
  moreover have "take (Suc i) (rows ?m) = take i (rows m) @ [?indexes @ drop (length seq) (rows m ! i)]"
    using i(2) by (simp add: take_Suc_conv_app_nth)
  moreover have "drop (Suc i) (rows ?m) = drop (Suc i) (rows m)" by simp
  moreover have "drop i (rows m) = rows m ! i # drop (Suc i) (rows m)"
    using i(2) by (simp add: Cons_nth_drop_Suc)
  ultimately show ?case using step
    by (simp add: Let_def del: length_map)
qed

lemma zip_replicate_map:
  "n = length xs \<Longrightarrow> map f (zip xs (replicate n r)) = map (\<lambda>x. f (x, r)) xs"
  by (induction xs arbitrary: n) auto

text \<open>
  As claim C6 is written it covers every index. The matrix is created with
  \<open>dtype=int\<close>: with start \<open>2^63\<close> the index of the vocabulary a does not fit the
  64-bit element type, and writing the row of the sequence a raises OverflowError, so
  no matrix is returned.
\<close>

theorem objects_to_index_matrix_overflow:
  "objects_to_index_matrix (Index_init [''a''] (2 ^ 63)) [[''a'']] = Inl OverflowError"
  by (simp add: objects_to_index_matrix_def py_max_def np_full2_def np_setrow_prefix_def
      int64_def dict_get_def Index_init_def)

text \<open>
  Claim C6, amended. Whenever the sentinel \<open>start - 1\<close> and every assigned index fit
  the 64-bit element type, that is \<open>-2^63 < start\<close> and \<open>start + vocab_size \<le> 2^63\<close>,
  \<open>objects_to_index_matrix\<close> returns for every outer sequence that is not empty a
  matrix with one row for each inner sequence and as many columns as the longest inner
  sequence has elements. Row \<open>i\<close> is the list of the mapped indexes of the \<open>i\<close>-th inner
  sequence, which is what \<open>objects_to_indexes\<close> returns for it (objects outside the
  vocabulary become \<open>not_in_index\<close>), followed by \<open>not_in_index\<close> repeated up to the
  column count; for a row of maximal length that is no padding at all. The vocabulary
  a, b with start 0 turns [[a], [a, b]] into the rows 0, -1 and 0, 1.
\<close>

theorem objects_to_index_matrix_padding:
  assumes "object_seq_seq \<noteq> []"
    and "- (2 ^ 63) < st" "st + vocab_size (Index_init vocab st) \<le> 2 ^ 63"
  shows "objects_to_index_matrix (Index_init vocab st) object_seq_seq =
           Inr \<lparr>nrows = length object_seq_seq,
                ncols = Max (length ` set object_seq_seq),
                rows = map (\<lambda>seq.
                              map (\<lambda>obj. dict_get (object_to_index (Index_init vocab st)) obj
                                            (not_in_index (Index_init vocab st))) seq @
                              replicate (Max (length ` set object_seq_seq) - length seq)
                                (not_in_index (Index_init vocab st)))
                         object_seq_seq\<rparr> \<and>
         (\<forall>seq. objects_to_indexes (Index_init vocab st) seq =
                  Inr (map (\<lambda>obj. dict_get (object_to_index (Index_init vocab st)) obj
                                     (not_in_index (Index_init vocab st))) seq))"
proof -
  let ?ix = "Index_init vocab st"
  let ?c = "Max (length ` set object_seq_seq)"
  let ?m = "\<lparr>nrows = length object_seq_seq, ncols = ?c,
             rows = replicate (length object_seq_seq) (replicate ?c (not_in_index ?ix))\<rparr>"
  have enc: "\<forall>obj. int64 (dict_get (object_to_index ?ix) obj (not_in_index ?ix))"
    using int64_dict_get [OF assms(2,3)] by simp
  have "0 \<le> vocab_size ?ix" by (simp add: vocab_size_Index_init)
  with assms(2,3) have "int64 (not_in_index ?ix)"
    by (simp add: not_in_index_Index_init int64_def)
  then have full: "np_full2 (length object_seq_seq) ?c (not_in_index ?ix) = Inr ?m"
    by (simp add: np_full2_def)
  from assms(1) have mx: "py_max (map length object_seq_seq) = Inr ?c"
    using py_max_nonempty [of "map length object_seq_seq"] by simp
  have "\<forall>seq \<in> set object_seq_seq. length seq \<le> ncols ?m" by simp
  then have "index_matrix_loop ?ix (enumerate 0 object_seq_seq) ?m =
           Inr (?m\<lparr>rows := take 0 (rows ?m) @
                  map (\<lambda>(seq, row).
                         map (\<lambda>obj. dict_get (object_to_index ?ix) obj (not_in_index ?ix)) seq @
                         drop (length seq) row)
                    (zip object_seq_seq (drop 0 (rows ?m)))\<rparr>)"
    using enc by (intro index_matrix_loop_rows) simp_all
  then have m: "objects_to_index_matrix ?ix object_seq_seq =
           Inr \<lparr>nrows = length object_seq_seq, ncols = ?c,
                rows = map (\<lambda>seq.
                              map (\<lambda>obj. dict_get (object_to_index ?ix) obj (not_in_index ?ix)) seq @
                              replicate (?c - length seq) (not_in_index ?ix))
                         object_seq_seq\<rparr>"
    by (simp add: objects_to_index_matrix_def mx full zip_replicate_map)
  have "objects_to_indexes ?ix seq =
          Inr (map (\<lambda>obj. dict_get (object_to_index ?ix) obj (not_in_index ?ix)) seq)" for seq
    using enc by (simp add: objects_to_indexes_def np_array_def list_all_iff)
  with m show ?thesis by blast
qed

theorem objects_to_index_matrix_padding_witness:
  "[[''a''], [''a'', ''b'']] \<noteq> [] \<and>
   - (2 ^ 63) < (0::int) \<and>
   0 + vocab_size (Index_init [''a'', ''b''] 0) \<le> 2 ^ 63 \<and>
   objects_to_index_matrix (Index_init [''a'', ''b''] 0) [[''a''], [''a'', ''b'']] =
     Inr \<lparr>nrows = 2, ncols = 2, rows = [[0, - 1], [0, 1]]\<rparr>"
proof -
  have h: "[[''a''], [''a'', ''b'']] \<noteq> []" by simp
  have h1: "- (2 ^ 63) < (0::int)" by simp
  have h2: "0 + vocab_size (Index_init [''a'', ''b''] 0) \<le> 2 ^ 63"
    by (simp add: Index_init_def)
  have mx: "Max (length ` set [[''a''], [''a'', ''b'']]) = 2" by simp
  have "dict_get (object_to_index (Index_init [''a'', ''b''] 0)) ''a''
          (not_in_index (Index_init [''a'', ''b''] 0)) = 0"
       "dict_get (object_to_index (Index_init [''a'', ''b''] 0)) ''b''
          (not_in_index (Index_init [''a'', ''b''] 0)) = 1"
       "not_in_index (Index_init [''a'', ''b''] 0) = - 1"
    by (simp_all add: dict_get_def Index_init_def)
  with objects_to_index_matrix_padding [OF h h1 h2] mx h h1 h2
  show ?thesis by simp
qed

end
